theory Spec2Isabelle
  imports Main
begin

section \<open>The invocation layer of act: \<^verbatim>\<open>cmd/root.go\<close>\<close>

text \<open>
  Go strings are byte sequences and are modelled as \<^typ>\<open>string\<close>; the empty string is
  \<open>[]\<close>. A Go \<^verbatim>\<open>error\<close> value is an \<^typ>\<open>string option\<close>, with \<open>None\<close> for
  \<^verbatim>\<open>nil\<close>.
\<close>

type_synonym error = string

subsection \<open>Event and plan resolution in \<^verbatim>\<open>newRunCommand\<close>\<close>

text \<open>
  A \<^verbatim>\<open>*model.Plan\<close> is opaque to this file: all it does with the planner is to choose
  which of \<^verbatim>\<open>PlanJob(jobID)\<close>, \<^verbatim>\<open>PlanEvent(name)\<close> and \<^verbatim>\<open>PlanAll()\<close> to call. A plan is
  therefore modelled as the planner request that produces it.
\<close>

datatype Plan = PlanJob string | PlanEvent string | PlanAll

text \<open>
  Lines 357--367. \<open>args\<close> are the positional arguments (cobra admits at most one),
  \<open>events\<close> is \<^verbatim>\<open>planner.GetEvents()\<close>. Go evaluates \<^verbatim>\<open>&&\<close> left to right and stops at
  the first false operand, so \<^verbatim>\<open>events[0]\<close> is only read when the list is not empty; in
  the model the conjunction is false there whatever \<open>events ! 0\<close> is.
\<close>

definition filterEventName :: "string list \<Rightarrow> bool \<Rightarrow> string list \<Rightarrow> string" where
  "filterEventName args autodetectEvent events =
     (if length args > 0 then args ! 0
      else if autodetectEvent \<and> length events > 0 \<and> length (events ! 0) > 0 then events ! 0
      else [])"

text \<open>Lines 369--378. The flag \<^verbatim>\<open>--job\<close> is a string whose default is the empty string.\<close>

definition filterPlan :: "string \<Rightarrow> string list \<Rightarrow> bool \<Rightarrow> string list \<Rightarrow> Plan" where
  "filterPlan jobID args autodetectEvent events =
     (if jobID \<noteq> [] then PlanJob jobID
      else if filterEventName args autodetectEvent events \<noteq> []
        then PlanEvent (filterEventName args autodetectEvent events)
      else PlanAll)"

text \<open>Lines 392--408.\<close>

definition eventName :: "string list \<Rightarrow> bool \<Rightarrow> string list \<Rightarrow> string" where
  "eventName args autodetectEvent events =
     (if length args > 0 then args ! 0
      else if length events = 1 \<and> length (events ! 0) > 0 then events ! 0
      else if autodetectEvent \<and> length events > 0 \<and> length (events ! 0) > 0 then events ! 0
      else ''push'')"

text \<open>Lines 411--417.\<close>

definition plan :: "string \<Rightarrow> string list \<Rightarrow> bool \<Rightarrow> string list \<Rightarrow> Plan" where
  "plan jobID args autodetectEvent events =
     (if jobID \<noteq> [] then PlanJob jobID
      else PlanEvent (eventName args autodetectEvent events))"

subsubsection \<open>The resolution orders as the specification words them\<close>

text \<open>
  The definitions below are not taken from the code. They follow the sentences of the
  specification, and exist to be compared with \<^const>\<open>plan\<close> and \<^const>\<open>filterPlan\<close>:
  ``a positional argument was given'' is \<open>args \<noteq> []\<close>, ``exactly one distinct discovered
  event exists'' is that the list without its duplicates has one element, ``at least one
  discovered event exists'' is \<open>events \<noteq> []\<close>.
\<close>

definition spec_eventName :: "string list \<Rightarrow> bool \<Rightarrow> string list \<Rightarrow> string" where
  "spec_eventName args autodetectEvent events =
     (if args \<noteq> [] then hd args
      else if length (remdups events) = 1 then hd events
      else if autodetectEvent \<and> events \<noteq> [] then hd events
      else ''push'')"

definition spec_plan :: "string \<Rightarrow> string list \<Rightarrow> bool \<Rightarrow> string list \<Rightarrow> Plan" where
  "spec_plan jobID args autodetectEvent events =
     (if jobID \<noteq> [] then PlanJob jobID
      else PlanEvent (spec_eventName args autodetectEvent events))"

definition spec_filterPlan :: "string \<Rightarrow> string list \<Rightarrow> bool \<Rightarrow> string list \<Rightarrow> Plan" where
  "spec_filterPlan jobID args autodetectEvent events =
     (if jobID \<noteq> [] then PlanJob jobID
      else if args \<noteq> [] then PlanEvent (hd args)
      else if autodetectEvent \<and> events \<noteq> [] then PlanEvent (hd events)
      else PlanAll)"

subsection \<open>Configuration files: \<^verbatim>\<open>readArgsFile\<close> and \<^verbatim>\<open>args\<close>\<close>

text \<open>
  The file system is a partial map from a path to the bytes of the file that
  \<^verbatim>\<open>os.Open\<close> would open; \<open>None\<close> is any failure to open.

  \<^verbatim>\<open>bufio.Scanner\<close> with its default split function \<^verbatim>\<open>ScanLines\<close>: the input is cut
  at each newline, a last piece without newline is a line when it is not empty, and one
  trailing carriage return is dropped from each line. A line that does not fit the
  scanner's buffer of \<^verbatim>\<open>MaxScanTokenSize\<close> bytes makes \<^verbatim>\<open>Scan\<close> return false, which
  ends the loop of \<^verbatim>\<open>readArgsFile\<close> there (the error is never looked at).
\<close>

definition MaxScanTokenSize :: nat where
  "MaxScanTokenSize = 64 * 1024"

fun rawLines :: "string \<Rightarrow> string \<Rightarrow> string list" where
  "rawLines cur [] = (if cur = [] then [] else [cur])"
| "rawLines cur (c # cs) =
     (if c = CHR 0x0A then cur # rawLines [] cs else rawLines (cur @ [c]) cs)"

definition dropCR :: "string \<Rightarrow> string" where
  "dropCR data = (if length data > 0 \<and> last data = CHR 0x0D then butlast data else data)"

definition scanLines :: "string \<Rightarrow> string list" where
  "scanLines content =
     map dropCR (takeWhile (\<lambda>l. length l < MaxScanTokenSize) (rawLines [] content))"

text \<open>
  \<^verbatim>\<open>strings.TrimSpace\<close> removes the leading and then the trailing runes for which
  \<^verbatim>\<open>unicode.IsSpace\<close> holds. \<open>spaceRunes\<close> lists their UTF-8 encodings: tab, newline,
  vertical tab, form feed, carriage return, space, U+0085, U+00A0, U+1680, U+2000 to
  U+200A, U+2028, U+2029, U+202F, U+205F and U+3000. No encoding is a prefix of another.
\<close>

definition spaceRunes :: "string list" where
  "spaceRunes =
     [[CHR 0x09], [CHR 0x0A], [CHR 0x0B], [CHR 0x0C], [CHR 0x0D], [CHR 0x20],
      [CHR 0xC2, CHR 0x85], [CHR 0xC2, CHR 0xA0],
      [CHR 0xE1, CHR 0x9A, CHR 0x80],
      [CHR 0xE2, CHR 0x80, CHR 0x80], [CHR 0xE2, CHR 0x80, CHR 0x81],
      [CHR 0xE2, CHR 0x80, CHR 0x82], [CHR 0xE2, CHR 0x80, CHR 0x83],
      [CHR 0xE2, CHR 0x80, CHR 0x84], [CHR 0xE2, CHR 0x80, CHR 0x85],
      [CHR 0xE2, CHR 0x80, CHR 0x86], [CHR 0xE2, CHR 0x80, CHR 0x87],
      [CHR 0xE2, CHR 0x80, CHR 0x88], [CHR 0xE2, CHR 0x80, CHR 0x89],
      [CHR 0xE2, CHR 0x80, CHR 0x8A],
      [CHR 0xE2, CHR 0x80, CHR 0xA8], [CHR 0xE2, CHR 0x80, CHR 0xA9],
      [CHR 0xE2, CHR 0x80, CHR 0xAF], [CHR 0xE2, CHR 0x81, CHR 0x9F],
      [CHR 0xE3, CHR 0x80, CHR 0x80]]"

function stripLeft :: "string list \<Rightarrow> string \<Rightarrow> string" where
  "stripLeft rs s =
     (case find (\<lambda>r. r \<noteq> [] \<and> take (length r) s = r) rs of
        None \<Rightarrow> s
      | Some r \<Rightarrow> stripLeft rs (drop (length r) s))"
  by pat_completeness auto
termination
proof (relation "measure (\<lambda>(rs, s). length s)")
  show "wf (measure (\<lambda>(rs, s). length s))" by simp
next
  fix rs :: "string list" and s r :: string
  assume "find (\<lambda>r. r \<noteq> [] \<and> take (length r) s = r) rs = Some r"
  then have "r \<noteq> []" and "take (length r) s = r"
    by (auto simp: find_Some_iff)
  then have "r \<noteq> []" and "s \<noteq> []" by auto
  then show "((rs, drop (length r) s), (rs, s)) \<in> measure (\<lambda>(rs, s). length s)"
    by simp
qed

declare stripLeft.simps [simp del]

definition TrimSpace :: "string \<Rightarrow> string" where
  "TrimSpace s = rev (stripLeft (map rev spaceRunes) (rev (stripLeft spaceRunes s)))"

text \<open>\<^verbatim>\<open>strings.HasPrefix\<close>.\<close>

definition HasPrefix :: "string \<Rightarrow> string \<Rightarrow> bool" where
  "HasPrefix s prefix \<longleftrightarrow> length s \<ge> length prefix \<and> take (length prefix) s = prefix"

text \<open>
  \<^verbatim>\<open>regexp.MustCompile(`\s`).Split(arg, 2)\<close>. The class \<^verbatim>\<open>\s\<close> of Go's regular
  expressions is tab, newline, form feed, carriage return and space, and the expression
  matches one such byte. With the limit 2 the string is cut at the first match only:
  the text before it, and everything after that one byte. Without a match the result is
  the string alone (also for the empty string).
\<close>

definition isReSpace :: "char \<Rightarrow> bool" where
  "isReSpace c \<longleftrightarrow> c \<in> set [CHR 0x09, CHR 0x0A, CHR 0x0C, CHR 0x0D, CHR 0x20]"

definition Split2 :: "string \<Rightarrow> string list" where
  "Split2 s =
     (let before = takeWhile (\<lambda>c. \<not> isReSpace c) s
      in if length before = length s then [s]
         else [before, drop (length before + 1) s])"

text \<open>
  Lines 225--247. \<open>scanLoop\<close> is the loop \<^verbatim>\<open>for scanner.Scan()\<close> over the lines the
  scanner delivers, with the slice \<^verbatim>\<open>args\<close> as accumulator.
\<close>

fun scanLoop :: "bool \<Rightarrow> string list \<Rightarrow> string list \<Rightarrow> string list" where
  "scanLoop split [] args = args"
| "scanLoop split (text # rest) args =
     (let arg = TrimSpace text
      in if HasPrefix arg ''-'' \<and> split then scanLoop split rest (args @ Split2 arg)
         else if \<not> split then scanLoop split rest (args @ [arg])
         else scanLoop split rest args)"

definition readArgsFile :: "(string \<rightharpoonup> string) \<Rightarrow> string \<Rightarrow> bool \<Rightarrow> string list" where
  "readArgsFile fs file split =
     (case fs file of
        None \<Rightarrow> []
      | Some content \<Rightarrow> scanLoop split (scanLines content) [])"

text \<open>
  Lines 116--126. \<open>actrc\<close> is the list \<^verbatim>\<open>configLocations()\<close> returns (it depends on the
  home directory and on \<^verbatim>\<open>XDG_CONFIG_HOME\<close>; when the home directory is unknown
  \<^verbatim>\<open>configLocations\<close> ends the process and \<^verbatim>\<open>args\<close> returns nothing), \<open>os_Args\<close> is
  \<^verbatim>\<open>os.Args\<close>, program name first. The slice expression \<^verbatim>\<open>os.Args[1:]\<close> panics when
  \<^verbatim>\<open>os.Args\<close> is empty.
\<close>

datatype panic = SliceBoundsOutOfRange

definition args :: "(string \<rightharpoonup> string) \<Rightarrow> string list \<Rightarrow> string list \<Rightarrow> panic + string list" where
  "args fs actrc os_Args =
     (let args = foldl (\<lambda>args f. args @ readArgsFile fs f True) [] actrc
      in if length os_Args < 1 then Inl SliceBoundsOutOfRange
         else Inr (args @ drop 1 os_Args))"

text \<open>
  The sentence of the specification on the split of a line, word for word: the line is
  cut at its first run of white space, the run being the separator. Not taken from the
  code; it is compared with \<^const>\<open>Split2\<close> below.
\<close>

definition spec_splitOnFirstRun :: "string \<Rightarrow> string list" where
  "spec_splitOnFirstRun s =
     (let before = takeWhile (\<lambda>c. \<not> isReSpace c) s
      in if length before = length s then [s]
         else [before, dropWhile isReSpace (drop (length before) s)])"

subsection \<open>Explicit tokens and files: \<^verbatim>\<open>parseEnvs\<close> and \<^verbatim>\<open>readEnvs\<close>\<close>

text \<open>
  \<^verbatim>\<open>strings.SplitN(envVar, "=", 2)\<close>: the string alone when it has no \<^verbatim>\<open>=\<close>, else the
  text before the first \<^verbatim>\<open>=\<close> and the text after it.
\<close>

definition SplitN2 :: "string \<Rightarrow> string list" where
  "SplitN2 s =
     (let before = takeWhile (\<lambda>c. c \<noteq> CHR ''='') s
      in if length before = length s then [s]
         else [before, drop (length before + 1) s])"

text \<open>
  Lines 265--278. A Go map is a partial map; the function writes into the map it is
  given, so the model returns the map with the boolean. A \<^verbatim>\<open>nil\<close> slice is \<open>None\<close>.
\<close>

fun parseEnvs_range :: "string list \<Rightarrow> (string \<rightharpoonup> string) \<Rightarrow> (string \<rightharpoonup> string)" where
  "parseEnvs_range [] envs = envs"
| "parseEnvs_range (envVar # rest) envs =
     (let e = SplitN2 envVar
      in if length e = 2 then parseEnvs_range rest (envs(e ! 0 \<mapsto> e ! 1))
         else parseEnvs_range rest (envs(e ! 0 \<mapsto> [])))"

definition parseEnvs :: "string list option \<Rightarrow> (string \<rightharpoonup> string) \<Rightarrow> bool \<times> (string \<rightharpoonup> string)" where
  "parseEnvs env envs =
     (case env of
        Some vars \<Rightarrow> (True, parseEnvs_range vars envs)
      | None \<Rightarrow> (False, envs))"

text \<open>
  Lines 280--292. What \<^verbatim>\<open>os.Stat\<close> and \<^verbatim>\<open>godotenv.Read\<close> find at a path is an input:
  nothing (\<^verbatim>\<open>os.Stat\<close> fails), a file that \<^verbatim>\<open>godotenv.Read\<close> rejects, or a file with its
  parsed key-value map. \<^verbatim>\<open>log.Fatalf\<close> ends the process; it is the \<open>Inl\<close> result. The loop
  over the parsed map stores each of its entries, which is \<open>envs ++ env\<close>.
\<close>

datatype envfile = NoFile | Rejected error | Parsed "string \<rightharpoonup> string"

datatype fatal = Fatal error

definition readEnvs ::
  "(string \<Rightarrow> envfile) \<Rightarrow> string \<Rightarrow> (string \<rightharpoonup> string) \<Rightarrow> fatal + bool \<times> (string \<rightharpoonup> string)" where
  "readEnvs files path envs =
     (case files path of
        NoFile \<Rightarrow> Inr (False, envs)
      | Rejected err \<Rightarrow> Inl (Fatal err)
      | Parsed env \<Rightarrow> Inr (True, envs ++ env))"

text \<open>
  Lines 315--317 and 320--322 of \<^verbatim>\<open>newRunCommand\<close>: a new map, the explicit tokens, then
  the file. Both results of type \<^verbatim>\<open>bool\<close> are dropped. For the secrets (lines 325--326)
  the first map comes from \<^verbatim>\<open>newSecrets\<close>, which is not in this file; there the map it
  returns is the third argument of \<^const>\<open>readEnvs\<close>.
\<close>

definition loadEnvs ::
  "(string \<Rightarrow> envfile) \<Rightarrow> string list option \<Rightarrow> string \<Rightarrow> fatal + (string \<rightharpoonup> string)" where
  "loadEnvs files tokens path =
     (case readEnvs files path (snd (parseEnvs tokens Map.empty)) of
        Inl f \<Rightarrow> Inl f
      | Inr (_, envs) \<Rightarrow> Inr envs)"

subsection \<open>Running the plan: artifact service, executor, watch loop\<close>

text \<open>
  What this layer does to its collaborators is recorded in a trace: the artifact service
  starting and stopping, the cancellation function being called, and each run of the
  plan executor with the error it returned.
\<close>

datatype event = ServiceStart | ServiceStop | CancelCalled | ExecutorRun "error option"

type_synonym trace = "event list"

text \<open>\<^verbatim>\<open>common.Executor\<close>, a \<^verbatim>\<open>func(ctx context.Context) error\<close> with effects.\<close>

type_synonym executor = "trace \<Rightarrow> error option \<times> trace"

definition passes :: "trace \<Rightarrow> nat" where
  "passes tr = length (filter (\<lambda>ev. case ev of ExecutorRun _ \<Rightarrow> True | _ \<Rightarrow> False) tr)"

text \<open>The error of the last executor run of a trace; \<^verbatim>\<open>nil\<close> when there was none.\<close>

definition lastPass :: "trace \<Rightarrow> error option" where
  "lastPass tr = foldl (\<lambda>r ev. case ev of ExecutorRun e \<Rightarrow> e | _ \<Rightarrow> r) None tr"

text \<open>
  Modelled from the spec: the executor that \<^verbatim>\<open>runner.NewPlanExecutor(plan)\<close> returns
  (package \<^verbatim>\<open>pkg/runner\<close>, not in the sources). The specification describes it as a unit
  of work that returns success or failure and is opaque to this layer. Its runs are
  numbered from 0 over the whole invocation; \<open>outcome n\<close> is what run \<open>n\<close> returns, so
  every sequence of successes and failures is covered. It touches nothing of the
  artifact service.
\<close>

definition NewPlanExecutor :: "(nat \<Rightarrow> error option) \<Rightarrow> executor" where
  "NewPlanExecutor outcome tr = (outcome (passes tr), tr @ [ExecutorRun (outcome (passes tr))])"

text \<open>
  Modelled from the spec: \<^verbatim>\<open>artifacts.Serve\<close> (package \<^verbatim>\<open>pkg/artifacts\<close>, not in the
  sources). The specification: it returns a cancellation function; with an empty storage
  path the service never starts and the cancellation is a no-op; otherwise the service is
  started, and the cancellation stops it. Every call of the cancellation function is
  recorded.
\<close>

definition Serve :: "string \<Rightarrow> trace \<Rightarrow> (trace \<Rightarrow> trace) \<times> trace" where
  "Serve artifactPath tr =
     (if artifactPath = [] then (\<lambda>t. t @ [CancelCalled], tr)
      else (\<lambda>t. t @ [CancelCalled, ServiceStop], tr @ [ServiceStart]))"

text \<open>
  Modelled from the spec: \<^verbatim>\<open>Executor.Finally\<close> (package \<^verbatim>\<open>pkg/common\<close>, not in the
  sources). The specification: the cleanup stage always runs after the main stage,
  whatever the main stage returned, and the result of the main stage takes priority.
  The cleanup stage of this file always returns \<^verbatim>\<open>nil\<close>.
\<close>

definition Finally :: "executor \<Rightarrow> executor \<Rightarrow> executor" where
  "Finally e finally tr =
     (case e tr of (err, tr1) \<Rightarrow> (case finally tr1 of (err2, tr2) \<Rightarrow> (err, tr2)))"

text \<open>
  Lines 582--596, the goroutine of \<^verbatim>\<open>watchAndRun\<close>. The file watcher is a library; what
  it answers is an input of the model:
  \<^item> \<open>running\<close> holds the answers of \<^verbatim>\<open>folderWatcher.IsRunning()\<close>, one for each time the
    condition of the outer loop is evaluated;
  \<^item> \<open>changes\<close> holds the change batches the channel \<^verbatim>\<open>ChangeDetails()\<close> delivers, in
    order, and \<open>closed\<close> tells what happens after the last one: the channel is closed
    (the \<^verbatim>\<open>range\<close> loop ends) or the receive blocks.
  The state is the shared variable \<^verbatim>\<open>err\<close> and the trace. The model follows the goroutine
  until it ends, blocks on the channel for good, or the answers in \<open>running\<close> are used
  up: that is the moment at which the main goroutine, woken by the cancellation, reads
  \<^verbatim>\<open>err\<close>. A pass and the assignment of its result to \<^verbatim>\<open>err\<close> are one step, so the
  interleaving is at the level of passes and the two goroutines see one memory.

  \<open>rangeChanges\<close> is the inner loop \<^verbatim>\<open>for changes := range folderWatcher.ChangeDetails()\<close>.
  Its \<^verbatim>\<open>break\<close> leaves this loop only. It returns how the loop was left, the batches not
  yet received, \<^verbatim>\<open>err\<close> and the trace.
\<close>

datatype range_exit = Break | ChannelClosed | Blocked

fun rangeChanges ::
  "executor \<Rightarrow> bool \<Rightarrow> string list \<Rightarrow> error option \<times> trace
     \<Rightarrow> range_exit \<times> string list \<times> error option \<times> trace" where
  "rangeChanges fn closed [] (err, tr) = (if closed then ChannelClosed else Blocked, [], err, tr)"
| "rangeChanges fn closed (c # cs) (err, tr) =
     (case fn tr of (err', tr') \<Rightarrow>
        if err' \<noteq> None then (Break, cs, err', tr')
        else rangeChanges fn closed cs (err', tr'))"

text \<open>The outer loop \<^verbatim>\<open>for folderWatcher.IsRunning()\<close>.\<close>

fun watchLoop ::
  "executor \<Rightarrow> bool list \<Rightarrow> bool \<Rightarrow> string list \<Rightarrow> error option \<times> trace
     \<Rightarrow> error option \<times> trace" where
  "watchLoop fn [] closed changes (err, tr) = (err, tr)"
| "watchLoop fn (isRunning # later) closed changes (err, tr) =
     (if \<not> isRunning then (err, tr)
      else case fn tr of (err1, tr1) \<Rightarrow>
        if err1 \<noteq> None then (err1, tr1)
        else (case rangeChanges fn closed changes (err1, tr1) of
                (Blocked, _, err2, tr2) \<Rightarrow> (err2, tr2)
              | (_, changes', err2, tr2) \<Rightarrow> watchLoop fn later closed changes' (err2, tr2)))"

text \<open>
  Lines 558--599. \<open>getwd\<close> is the error of \<^verbatim>\<open>os.Getwd()\<close>; the variable \<^verbatim>\<open>err\<close> it is
  assigned to is the one the goroutine writes and the last line returns.
  \<^verbatim>\<open>folderWatcher.Stop()\<close> returns nothing and assigns nothing.
\<close>

definition watchAndRun ::
  "error option \<Rightarrow> executor \<Rightarrow> bool list \<Rightarrow> bool \<Rightarrow> string list \<Rightarrow> trace
     \<Rightarrow> error option \<times> trace" where
  "watchAndRun getwd fn running closed changes tr =
     (case getwd of
        Some e \<Rightarrow> (Some e, tr)
      | None \<Rightarrow> watchLoop fn running closed changes (None, tr))"

text \<open>
  Lines 498--511, the end of \<^verbatim>\<open>newRunCommand\<close>. \<open>watchFlag\<close> is the result of
  \<^verbatim>\<open>GetBool("watch")\<close>, an error or the flag. The dry-run marker put into the context
  does not reach anything modelled here.
\<close>

definition newRunCommand_run ::
  "string \<Rightarrow> error + bool \<Rightarrow> (nat \<Rightarrow> error option) \<Rightarrow> error option \<Rightarrow> bool list \<Rightarrow> bool
     \<Rightarrow> string list \<Rightarrow> error option \<times> trace" where
  "newRunCommand_run artifactServerPath watchFlag outcome getwd running closed changes =
     (case Serve artifactServerPath [] of (cancel, tr) \<Rightarrow>
        (case watchFlag of
           Inl err \<Rightarrow> (Some err, tr)
         | Inr watch \<Rightarrow>
             if watch then watchAndRun getwd (NewPlanExecutor outcome) running closed changes tr
             else Finally (NewPlanExecutor outcome) (\<lambda>t. (None, cancel t)) tr))"

section \<open>Theorems\<close>

subsection \<open>Execution plan\<close>

text \<open>
  C1, as stated, does not hold. The specification selects the only distinct discovered
  event and, under auto-detect, the first discovered event. The code selects the single
  event only when the list has exactly one entry (\<^verbatim>\<open>len(events) == 1\<close>), and in both
  branches only when the first entry is not the empty string
  (\<^verbatim>\<open>len(events[0]) > 0\<close>). With \<^verbatim>\<open>pull_request\<close> discovered twice and auto-detect off
  the code falls back to \<^verbatim>\<open>push\<close>; with one discovered event of empty name it falls back
  to \<^verbatim>\<open>push\<close> as well.
\<close>

theorem C1_counterexample:
  "plan [] [] False [''pull_request'', ''pull_request''] = PlanEvent ''push''
   \<and> spec_plan [] [] False [''pull_request'', ''pull_request''] = PlanEvent ''pull_request''
   \<and> plan [] [] False [[]] = PlanEvent ''push''
   \<and> spec_plan [] [] False [[]] = PlanEvent []"
  by (simp add: plan_def eventName_def spec_plan_def spec_eventName_def)

text \<open>
  C1, amended: the execution event name is the positional argument when one was given;
  else the discovered event when the list of discovered events has exactly one entry and
  that entry is not empty; else the first discovered event when auto-detect is on, the
  list is not empty and its first entry is not empty; else \<^verbatim>\<open>push\<close>. The plan is then built
  by job ID when the job ID is not empty, whatever the event name, and for the resolved
  event name otherwise.
\<close>

theorem C1_execution_plan_precedence:
  "(posArgs \<noteq> [] \<longrightarrow> eventName posArgs ad events = hd posArgs)
   \<and> (posArgs = [] \<and> events = [e] \<and> e \<noteq> [] \<longrightarrow> eventName posArgs ad events = e)
   \<and> (posArgs = [] \<and> (\<nexists>x. events = [x] \<and> x \<noteq> []) \<and> ad \<and> events = e # es \<and> e \<noteq> []
        \<longrightarrow> eventName posArgs ad events = e)
   \<and> (posArgs = [] \<and> (\<nexists>x. events = [x] \<and> x \<noteq> []) \<and> \<not> (ad \<and> events \<noteq> [] \<and> hd events \<noteq> [])
        \<longrightarrow> eventName posArgs ad events = ''push'')
   \<and> (jobID \<noteq> [] \<longrightarrow> plan jobID posArgs ad events = PlanJob jobID)
   \<and> (jobID = [] \<longrightarrow> plan jobID posArgs ad events = PlanEvent (eventName posArgs ad events))"
proof -
  have one: "length events = 1 \<and> length (events ! 0) > 0 \<longleftrightarrow> (\<exists>x. events = [x] \<and> x \<noteq> [])"
    by (cases events) auto
  have first: "length events > 0 \<and> length (events ! 0) > 0 \<longleftrightarrow> events \<noteq> [] \<and> hd events \<noteq> []"
    by (cases events) auto
  have arg: "posArgs \<noteq> [] \<Longrightarrow> posArgs ! 0 = hd posArgs"
    by (cases posArgs) auto
  show ?thesis
    unfolding plan_def eventName_def using one first arg by auto
qed

theorem C1_execution_plan_precedence_witness:
  "eventName [''release''] True [''a'', ''b''] = ''release''
   \<and> eventName [] False [''pull_request''] = ''pull_request''
   \<and> eventName [] True [''a'', ''b''] = ''a''
   \<and> eventName [] False [''a'', ''b''] = ''push''
   \<and> plan ''build'' [''release''] True [''a'', ''b''] = PlanJob ''build''
   \<and> plan [] [] False [''pull_request''] = PlanEvent ''pull_request''"
  using C1_execution_plan_precedence [of "[''release'']" True "[''a'', ''b'']" "''a''" "[''b'']" "''build''"]
    C1_execution_plan_precedence [of "[]" False "[''pull_request'']" "''pull_request''" "[]" "[]"]
    C1_execution_plan_precedence [of "[]" True "[''a'', ''b'']" "''a''" "[''b'']" "[]"]
    C1_execution_plan_precedence [of "[]" False "[''a'', ''b'']" "''a''" "[''b'']" "[]"]
  by simp

subsection \<open>Filter plan\<close>

text \<open>
  C2, as stated, does not hold. The code keeps the chosen event name in a string and
  reads the empty string as ``no event name'' (\<^verbatim>\<open>filterEventName != ""\<close>), and it takes
  the first discovered event only when that event is not the empty string. A positional
  argument that is the empty string therefore gives the plan of all jobs, where the
  specification builds the plan for that event; so does auto-detect when the first
  discovered event has the empty name.
\<close>

theorem C2_counterexample:
  "filterPlan [] [[]] False [] = PlanAll
   \<and> spec_filterPlan [] [[]] False [] = PlanEvent []
   \<and> filterPlan [] [] True [[], ''push''] = PlanAll
   \<and> spec_filterPlan [] [] True [[], ''push''] = PlanEvent []"
  by (simp add: filterPlan_def filterEventName_def spec_filterPlan_def)

text \<open>
  C2, amended: the filter plan is the plan of the job when the job ID is not empty; else
  the plan for the positional argument when one was given and it is not empty; else, when
  no positional argument was given, auto-detect is on, the list of discovered events is
  not empty and its first entry is not empty, the plan for that first entry; else the
  plan of all jobs (this includes a positional argument that is the empty string,
  whatever auto-detect says).
\<close>

theorem C2_filter_plan_precedence:
  "(jobID \<noteq> [] \<longrightarrow> filterPlan jobID posArgs ad events = PlanJob jobID)
   \<and> (jobID = [] \<and> posArgs = a # as \<and> a \<noteq> [] \<longrightarrow> filterPlan jobID posArgs ad events = PlanEvent a)
   \<and> (jobID = [] \<and> posArgs = [] \<and> ad \<and> events = e # es \<and> e \<noteq> []
        \<longrightarrow> filterPlan jobID posArgs ad events = PlanEvent e)
   \<and> (jobID = [] \<and> posArgs = [] \<and> \<not> (ad \<and> events \<noteq> [] \<and> hd events \<noteq> [])
        \<longrightarrow> filterPlan jobID posArgs ad events = PlanAll)
   \<and> (jobID = [] \<and> posArgs \<noteq> [] \<and> hd posArgs = [] \<longrightarrow> filterPlan jobID posArgs ad events = PlanAll)"
proof -
  have first: "length events > 0 \<and> length (events ! 0) > 0 \<longleftrightarrow> events \<noteq> [] \<and> hd events \<noteq> []"
    by (cases events) auto
  have arg: "posArgs \<noteq> [] \<Longrightarrow> posArgs ! 0 = hd posArgs"
    by (cases posArgs) auto
  show ?thesis
    unfolding filterPlan_def filterEventName_def using first arg by auto
qed

theorem C2_filter_plan_precedence_witness:
  "filterPlan ''build'' [''release''] True [''a'', ''b''] = PlanJob ''build''
   \<and> filterPlan [] [''release''] True [''a'', ''b''] = PlanEvent ''release''
   \<and> filterPlan [] [] True [''a'', ''b''] = PlanEvent ''a''
   \<and> filterPlan [] [] False [''a'', ''b''] = PlanAll
   \<and> filterPlan [] [[]] True [''a'', ''b''] = PlanAll"
  using C2_filter_plan_precedence [of "''build''" "[''release'']" True "[''a'', ''b'']" "''release''" "[]" "''a''" "[''b'']"]
    C2_filter_plan_precedence [of "[]" "[''release'']" True "[''a'', ''b'']" "''release''" "[]" "''a''" "[''b'']"]
    C2_filter_plan_precedence [of "[]" "[]" True "[''a'', ''b'']" "[]" "[]" "''a''" "[''b'']"]
    C2_filter_plan_precedence [of "[]" "[]" False "[''a'', ''b'']" "[]" "[]" "''a''" "[''b'']"]
    C2_filter_plan_precedence [of "[]" "[[]]" True "[''a'', ''b'']" "[]" "[]" "''a''" "[''b'']"]
  by simp

subsection \<open>One discovered event: the two resolutions differ\<close>

text \<open>
  C3, as stated, does not hold for a single discovered event whose name is the empty
  string: both resolutions guard the discovered event with \<^verbatim>\<open>len(events[0]) > 0\<close>, so the
  execution plan is the plan for \<^verbatim>\<open>push\<close>, not for that event, and the filter plan under
  auto-detect is the plan of all jobs, not the plan for that event.
\<close>

theorem C3_counterexample:
  "plan [] [] False [[]] = PlanEvent ''push''
   \<and> PlanEvent ''push'' \<noteq> PlanEvent []
   \<and> filterPlan [] [] True [[]] = PlanAll
   \<and> PlanAll \<noteq> PlanEvent []"
  by (simp add: plan_def eventName_def filterPlan_def filterEventName_def)

text \<open>
  C3, amended: for every input with exactly one discovered event whose name is not
  empty, no positional argument and no job ID, the execution plan is the plan for that
  event whether auto-detect is on or off, while the filter plan is the plan of all jobs
  when auto-detect is off and the plan for that event when auto-detect is on.
\<close>

theorem C3_single_event_asymmetry:
  assumes "e \<noteq> []"
  shows "plan [] [] ad [e] = PlanEvent e
     \<and> plan [] [] False [e] = PlanEvent e
     \<and> filterPlan [] [] False [e] = PlanAll
     \<and> filterPlan [] [] True [e] = PlanEvent e"
  using assms by (simp add: plan_def eventName_def filterPlan_def filterEventName_def)

theorem C3_single_event_asymmetry_witness:
  "''pull_request'' \<noteq> []
   \<and> plan [] [] False [''pull_request''] = PlanEvent ''pull_request''
   \<and> filterPlan [] [] False [''pull_request''] = PlanAll
   \<and> filterPlan [] [] True [''pull_request''] = PlanEvent ''pull_request''"
  using C3_single_event_asymmetry [of "''pull_request''" False]
  by simp

subsection \<open>Configuration files\<close>

lemma scanLoop_append:
  "scanLoop split ls acc =
     acc @ concat (map (\<lambda>l. if split then (if HasPrefix (TrimSpace l) ''-'' then Split2 (TrimSpace l) else [])
                             else [TrimSpace l]) ls)"
  by (induction ls arbitrary: acc) (auto simp: Let_def)

lemma foldl_append_concat:
  "foldl (\<lambda>acc f. acc @ g f) acc fs = acc @ concat (map g fs)"
  by (induction fs arbitrary: acc) auto

lemma Split2_no_space:
  assumes "\<forall>c \<in> set s. \<not> isReSpace c"
  shows "Split2 s = [s]"
proof -
  have whole: "takeWhile (\<lambda>c. \<not> isReSpace c) s = s"
    using assms by simp
  show ?thesis unfolding Split2_def whole by simp
qed

lemma Split2_first_space:
  assumes "\<forall>c \<in> set before. \<not> isReSpace c" and "isReSpace c"
  shows "Split2 (before @ c # rest) = [before, rest]"
proof -
  have cut: "takeWhile (\<lambda>c. \<not> isReSpace c) (before @ c # rest) = before"
    using assms by simp
  show ?thesis unfolding Split2_def cut by simp
qed

lemma Split2_length: "length (Split2 s) \<le> 2"
  by (simp add: Split2_def Let_def)

lemma rawLines_line:
  "CHR 0x0A \<notin> set xs \<Longrightarrow> rawLines cur (xs @ CHR 0x0A # rest) = (cur @ xs) # rawLines [] rest"
  by (induction xs arbitrary: cur) auto

lemma scanLines_all_short:
  assumes "\<forall>l \<in> set (rawLines [] content). length l < MaxScanTokenSize"
  shows "scanLines content = map dropCR (rawLines [] content)"
proof -
  have "takeWhile (\<lambda>l. length l < MaxScanTokenSize) (rawLines [] content) = rawLines [] content"
    using assms by (simp only: takeWhile_eq_all_conv)
  then show ?thesis
    by (simp only: scanLines_def)
qed

lemma scanLines_stops_at_long_line:
  assumes "rawLines [] content = early @ long # late"
    and "\<forall>l \<in> set early. length l < MaxScanTokenSize"
    and "MaxScanTokenSize \<le> length long"
  shows "scanLines content = map dropCR early"
  using assms by (simp add: scanLines_def)

text \<open>
  C7: for every list of candidate files and every process argument vector (program name
  first), the argument sequence \<^verbatim>\<open>args()\<close> hands to the flag parser is the split-mode
  arguments of each candidate file, in the order of the candidates, followed by the
  command-line arguments of the process in their order. The command-line arguments thus
  stand after every argument that comes from a file.
\<close>

theorem C7_args_files_then_command_line:
  "args fs actrc (prog # cli) = Inr (concat (map (\<lambda>f. readArgsFile fs f True) actrc) @ cli)"
  by (simp add: args_def foldl_append_concat)

text \<open>
  C8, as stated, does not hold, for two reasons. First, the regular expression \<^verbatim>\<open>\s\<close>
  matches one byte of white space, not a run: for a line with two spaces after the flag
  the second token keeps the second space, where a split on the run would not. Second,
  not every line of an existing file is read: the scanner stops at the first line of
  \<^verbatim>\<open>MaxScanTokenSize\<close> (65536) bytes or more, and \<^verbatim>\<open>readArgsFile\<close> never looks at the
  scanner's error. A file whose first line has 65536 bytes and whose second line is
  \<^verbatim>\<open>-v\<close> gives no argument at all, in split mode and in no-split mode, although the
  trimmed second line starts with \<^verbatim>\<open>-\<close>.
\<close>

theorem C8_counterexample:
  "readArgsFile [''.actrc'' \<mapsto> ''-P  ubuntu-latest=node:16''] ''.actrc'' True
     = [''-P'', '' ubuntu-latest=node:16'']
   \<and> spec_splitOnFirstRun ''-P  ubuntu-latest=node:16'' = [''-P'', ''ubuntu-latest=node:16'']
   \<and> rawLines [] (replicate 65536 (CHR ''#'') @ CHR 0x0A # ''-v'')
     = [replicate 65536 (CHR ''#''), ''-v'']
   \<and> HasPrefix (TrimSpace ''-v'') ''-''
   \<and> readArgsFile [''.actrc'' \<mapsto> replicate 65536 (CHR ''#'') @ CHR 0x0A # ''-v''] ''.actrc'' True = []
   \<and> readArgsFile [''.actrc'' \<mapsto> replicate 65536 (CHR ''#'') @ CHR 0x0A # ''-v''] ''.actrc'' False = []"
proof -
  let ?long = "replicate 65536 (CHR ''#'')"
  let ?content = "?long @ CHR 0x0A # ''-v''"
  have split: "readArgsFile [''.actrc'' \<mapsto> ''-P  ubuntu-latest=node:16''] ''.actrc'' True
       = [''-P'', '' ubuntu-latest=node:16'']
     \<and> spec_splitOnFirstRun ''-P  ubuntu-latest=node:16'' = [''-P'', ''ubuntu-latest=node:16'']"
    by (simp add: readArgsFile_def scanLines_def dropCR_def MaxScanTokenSize_def TrimSpace_def
        spaceRunes_def stripLeft.simps HasPrefix_def Split2_def isReSpace_def
        spec_splitOnFirstRun_def)
  have raw: "rawLines [] ?content = [?long, ''-v'']"
    using rawLines_line [of ?long "[]" "''-v''"] by simp
  have "scanLines ?content = map dropCR []"
    by (rule scanLines_stops_at_long_line [where long = ?long and late = "[''-v'']"])
      (simp_all add: raw MaxScanTokenSize_def)
  then have none: "scanLines ?content = []"
    by simp
  have flag: "HasPrefix (TrimSpace ''-v'') ''-''"
    by (simp add: TrimSpace_def spaceRunes_def stripLeft.simps HasPrefix_def)
  have "readArgsFile [''.actrc'' \<mapsto> ?content] ''.actrc'' True = []"
    "readArgsFile [''.actrc'' \<mapsto> ?content] ''.actrc'' False = []"
    unfolding readArgsFile_def by (simp_all add: none)
  with split raw flag show ?thesis
    by blast
qed

text \<open>
  C8, amended: for every configuration file that can be opened, the lines that are read
  are all lines of the file when each has fewer than 65536 bytes, and otherwise only the
  lines before the first line of 65536 bytes or more (that line and all later lines are
  dropped, in both modes). In split mode each line read is trimmed, and a trimmed line
  that starts with \<^verbatim>\<open>-\<close> is cut at its first white-space byte (tab, newline, form feed,
  carriage return or space) into the text before that byte and the whole remainder after
  it, or kept as one token when it has no such byte; the tokens are appended in line
  order, and a trimmed line that does not start with \<^verbatim>\<open>-\<close> is discarded. In no-split
  mode every trimmed line that is read is appended as it is.
\<close>

theorem C8_readArgsFile_by_mode:
  assumes "fs path = Some content"
  shows "readArgsFile fs path True =
       concat (map (\<lambda>l. if HasPrefix (TrimSpace l) ''-'' then Split2 (TrimSpace l) else [])
                 (scanLines content))
     \<and> readArgsFile fs path False = map TrimSpace (scanLines content)
     \<and> ((\<forall>l \<in> set (rawLines [] content). length l < MaxScanTokenSize)
          \<longrightarrow> scanLines content = map dropCR (rawLines [] content))
     \<and> (rawLines [] content = early @ long # late
          \<and> (\<forall>l \<in> set early. length l < MaxScanTokenSize) \<and> MaxScanTokenSize \<le> length long
          \<longrightarrow> scanLines content = map dropCR early)
     \<and> length (Split2 arg) \<le> 2
     \<and> ((\<forall>c \<in> set arg. \<not> isReSpace c) \<longrightarrow> Split2 arg = [arg])
     \<and> ((\<forall>c \<in> set before. \<not> isReSpace c) \<and> isReSpace sp \<longrightarrow> Split2 (before @ sp # rest) = [before, rest])"
proof -
  have "concat (map (\<lambda>l. [TrimSpace l]) ls) = map TrimSpace ls" for ls
    by (induction ls) auto
  then have modes: "readArgsFile fs path True =
       concat (map (\<lambda>l. if HasPrefix (TrimSpace l) ''-'' then Split2 (TrimSpace l) else [])
                 (scanLines content))
     \<and> readArgsFile fs path False = map TrimSpace (scanLines content)"
    using assms by (simp add: readArgsFile_def scanLoop_append)
  show ?thesis
    using modes scanLines_all_short [of content]
      scanLines_stops_at_long_line [of content early long late]
      Split2_no_space [of arg] Split2_first_space [of before sp rest] Split2_length [of arg]
    by blast
qed

theorem C8_readArgsFile_by_mode_witness:
  "[''.actrc'' \<mapsto> ''  -P ubuntu-latest=node:16 '' @ [CHR 0x0D, CHR 0x0A] @ ''# images''
        @ [CHR 0x0A, CHR 0x0A] @ ''-v''] ''.actrc''
     = Some (''  -P ubuntu-latest=node:16 '' @ [CHR 0x0D, CHR 0x0A] @ ''# images''
        @ [CHR 0x0A, CHR 0x0A] @ ''-v'')
   \<and> readArgsFile
        [''.actrc'' \<mapsto> ''  -P ubuntu-latest=node:16 '' @ [CHR 0x0D, CHR 0x0A] @ ''# images''
           @ [CHR 0x0A, CHR 0x0A] @ ''-v'']
        ''.actrc'' True
     = [''-P'', ''ubuntu-latest=node:16'', ''-v'']
   \<and> readArgsFile
        [''.actrc'' \<mapsto> ''  -P ubuntu-latest=node:16 '' @ [CHR 0x0D, CHR 0x0A] @ ''# images''
           @ [CHR 0x0A, CHR 0x0A] @ ''-v'']
        ''.actrc'' False
     = [''-P ubuntu-latest=node:16'', ''# images'', [], ''-v'']
   \<and> scanLines (''  -P ubuntu-latest=node:16 '' @ [CHR 0x0D, CHR 0x0A] @ ''# images''
        @ [CHR 0x0A, CHR 0x0A] @ ''-v'')
     = map dropCR (rawLines [] (''  -P ubuntu-latest=node:16 '' @ [CHR 0x0D, CHR 0x0A] @ ''# images''
        @ [CHR 0x0A, CHR 0x0A] @ ''-v''))
   \<and> rawLines [] (''-q'' @ CHR 0x0A # replicate 65536 (CHR ''#'') @ CHR 0x0A # ''-v'')
     = [''-q''] @ replicate 65536 (CHR ''#'') # [''-v'']
   \<and> MaxScanTokenSize \<le> length (replicate 65536 (CHR ''#''))
   \<and> scanLines (''-q'' @ CHR 0x0A # replicate 65536 (CHR ''#'') @ CHR 0x0A # ''-v'')
     = map dropCR [''-q'']
   \<and> readArgsFile
        [''.actrc'' \<mapsto> ''-q'' @ CHR 0x0A # replicate 65536 (CHR ''#'') @ CHR 0x0A # ''-v'']
        ''.actrc'' True
     = [''-q'']
   \<and> Split2 ''-v'' = [''-v'']
   \<and> Split2 (''-P'' @ CHR 0x20 # ''a b'') = [''-P'', ''a b'']"
proof -
  let ?content = "''  -P ubuntu-latest=node:16 '' @ [CHR 0x0D, CHR 0x0A] @ ''# images''
        @ [CHR 0x0A, CHR 0x0A] @ ''-v''"
  let ?fs = "[''.actrc'' \<mapsto> ?content]"
  let ?long = "replicate 65536 (CHR ''#'')"
  let ?cut = "''-q'' @ CHR 0x0A # ?long @ CHR 0x0A # ''-v''"
  let ?fs' = "[''.actrc'' \<mapsto> ?cut]"
  have raw: "rawLines [] ?content = [''  -P ubuntu-latest=node:16 '' @ [CHR 0x0D], ''# images'', [], ''-v'']"
    by simp
  have short: "\<forall>l \<in> set (rawLines [] ?content). length l < MaxScanTokenSize"
    unfolding raw by (simp add: MaxScanTokenSize_def)
  have lines: "map dropCR (rawLines [] ?content) = [''  -P ubuntu-latest=node:16 '', ''# images'', [], ''-v'']"
    unfolding raw by (simp add: dropCR_def)
  have trimmed:
    "TrimSpace ''  -P ubuntu-latest=node:16 '' = ''-P ubuntu-latest=node:16''"
    "TrimSpace ''# images'' = ''# images''"
    "TrimSpace [] = []"
    "TrimSpace ''-v'' = ''-v''"
    "TrimSpace ''-q'' = ''-q''"
    by (simp_all add: TrimSpace_def spaceRunes_def stripLeft.simps)
  have opened: "?fs ''.actrc'' = Some ?content"
    by simp
  have spaces: "\<forall>c \<in> set ''-v''. \<not> isReSpace c" "\<forall>c \<in> set ''-P''. \<not> isReSpace c" "isReSpace (CHR 0x20)"
    "\<forall>c \<in> set ''-q''. \<not> isReSpace c"
    by (simp_all add: isReSpace_def)
  note inst = C8_readArgsFile_by_mode [where fs = "?fs" and path = "''.actrc''"
        and content = "?content" and early = "[]" and long = "[]" and late = "[]"
        and arg = "''-v''" and before = "''-P''"
        and sp = "CHR 0x20" and rest = "''a b''", OF opened]
  from inst short have all: "scanLines ?content = map dropCR (rawLines [] ?content)"
    by blast
  have split: "concat (map (\<lambda>l. if HasPrefix (TrimSpace l) ''-'' then Split2 (TrimSpace l) else [])
        (scanLines ?content)) = [''-P'', ''ubuntu-latest=node:16'', ''-v'']"
    unfolding all lines by (simp add: trimmed HasPrefix_def Split2_def isReSpace_def)
  have nosplit: "map TrimSpace (scanLines ?content)
      = [''-P ubuntu-latest=node:16'', ''# images'', [], ''-v'']"
    unfolding all lines by (simp add: trimmed)
  from inst [unfolded split nosplit] spaces
  have first: "readArgsFile ?fs ''.actrc'' True = [''-P'', ''ubuntu-latest=node:16'', ''-v'']"
    "readArgsFile ?fs ''.actrc'' False = [''-P ubuntu-latest=node:16'', ''# images'', [], ''-v'']"
    "Split2 ''-v'' = [''-v'']"
    "Split2 (''-P'' @ CHR 0x20 # ''a b'') = [''-P'', ''a b'']"
    by blast+
  have raw': "rawLines [] ?cut = [''-q''] @ ?long # [''-v'']"
    using rawLines_line [of ?long "[]" "''-v''"] by simp
  have big: "MaxScanTokenSize \<le> length ?long"
    by (simp add: MaxScanTokenSize_def)
  have small: "\<forall>l \<in> set [''-q'']. length l < MaxScanTokenSize"
    by (simp add: MaxScanTokenSize_def)
  have opened': "?fs' ''.actrc'' = Some ?cut"
    by simp
  note inst' = C8_readArgsFile_by_mode [where fs = "?fs'" and path = "''.actrc''"
        and content = "?cut" and early = "[''-q'']" and long = "?long" and late = "[''-v'']"
        and arg = "''-q''" and before = "''-P''"
        and sp = "CHR 0x20" and rest = "''a b''", OF opened']
  from inst' raw' big small have stop: "scanLines ?cut = map dropCR [''-q'']"
    by blast
  have split': "concat (map (\<lambda>l. if HasPrefix (TrimSpace l) ''-'' then Split2 (TrimSpace l) else [])
        (scanLines ?cut)) = [''-q'']"
    unfolding stop by (simp add: dropCR_def trimmed HasPrefix_def Split2_def isReSpace_def)
  from inst' [unfolded split']
  have second: "readArgsFile ?fs' ''.actrc'' True = [''-q'']"
    by blast
  from opened first all raw' big stop second show ?thesis
    by blast
qed

subsection \<open>Explicit tokens and files\<close>

lemma SplitN2_key_value:
  assumes "CHR ''='' \<notin> set k"
  shows "SplitN2 (k @ CHR ''='' # v) = [k, v]"
proof -
  have "\<forall>c \<in> set k. c \<noteq> CHR ''=''"
    using assms by auto
  then have cut: "takeWhile (\<lambda>c. c \<noteq> CHR ''='') (k @ CHR ''='' # v) = k"
    by simp
  show ?thesis unfolding SplitN2_def cut by simp
qed

lemma SplitN2_bare_key:
  assumes "CHR ''='' \<notin> set k"
  shows "SplitN2 k = [k]"
proof -
  have whole: "takeWhile (\<lambda>c. c \<noteq> CHR ''='') k = k"
    using assms by auto
  show ?thesis unfolding SplitN2_def whole by simp
qed

lemma parseEnvs_range_append:
  "parseEnvs_range (xs @ ys) envs = parseEnvs_range ys (parseEnvs_range xs envs)"
  by (induction xs arbitrary: envs) (auto simp: Let_def)

text \<open>
  C9: for every key that an explicit token sets (\<open>k=v0\<close>, or the bare key \<open>k\<close>, which
  stores the empty string) and that the loaded file holds as well, the resulting map has
  the value of the file: \<^verbatim>\<open>parseEnvs\<close> writes the tokens into the map first, and
  \<^verbatim>\<open>readEnvs\<close> then writes the entries of the file into the same map. This is so for the
  maps of \<^verbatim>\<open>--env\<close> and \<^verbatim>\<open>--input\<close>, for any list of tokens, and for the secrets whatever
  map \<^verbatim>\<open>newSecrets\<close> built from the tokens of \<^verbatim>\<open>--secret\<close>.
\<close>

theorem C9_file_value_wins:
  assumes "files path = Parsed env" and "env k = Some v" and "CHR ''='' \<notin> set k"
  shows "snd (parseEnvs (Some (tokens @ [k @ CHR ''='' # v0])) Map.empty) k = Some v0
     \<and> snd (parseEnvs (Some (tokens @ [k])) Map.empty) k = Some []
     \<and> (\<exists>envs. loadEnvs files (Some (tokens @ [k @ CHR ''='' # v0])) path = Inr envs \<and> envs k = Some v)
     \<and> (\<exists>envs. loadEnvs files (Some (tokens @ [k])) path = Inr envs \<and> envs k = Some v)
     \<and> (\<exists>envs. loadEnvs files given path = Inr envs \<and> envs k = Some v)
     \<and> (\<exists>envs. readEnvs files path secrets = Inr (True, envs) \<and> envs k = Some v)"
  using assms
  by (simp add: parseEnvs_def parseEnvs_range_append SplitN2_key_value SplitN2_bare_key
      loadEnvs_def readEnvs_def)

theorem C9_file_value_wins_witness:
  "(\<lambda>p. if p = ''.env'' then Parsed [''TOKEN'' \<mapsto> ''from-file''] else NoFile) ''.env''
      = Parsed [''TOKEN'' \<mapsto> ''from-file'']
   \<and> [''TOKEN'' \<mapsto> ''from-file''] ''TOKEN'' = Some ''from-file''
   \<and> CHR ''='' \<notin> set ''TOKEN''
   \<and> snd (parseEnvs (Some ([''CI=1''] @ [''TOKEN'' @ CHR ''='' # ''from-flag''])) Map.empty) ''TOKEN''
      = Some ''from-flag''
   \<and> snd (parseEnvs (Some ([''CI=1''] @ [''TOKEN''])) Map.empty) ''TOKEN'' = Some []
   \<and> (\<exists>envs. loadEnvs (\<lambda>p. if p = ''.env'' then Parsed [''TOKEN'' \<mapsto> ''from-file''] else NoFile)
          (Some ([''CI=1''] @ [''TOKEN'' @ CHR ''='' # ''from-flag''])) ''.env'' = Inr envs
        \<and> envs ''TOKEN'' = Some ''from-file'')"
proof -
  let ?files = "\<lambda>p. if p = ''.env'' then Parsed [''TOKEN'' \<mapsto> ''from-file''] else NoFile"
  have parsed: "?files ''.env'' = Parsed [''TOKEN'' \<mapsto> ''from-file'']"
    by simp
  have entry: "[''TOKEN'' \<mapsto> ''from-file''] ''TOKEN'' = Some ''from-file''"
    by simp
  have key: "CHR ''='' \<notin> set ''TOKEN''"
    by simp
  show ?thesis
    using C9_file_value_wins [where files = "?files" and path = "''.env''"
        and env = "[''TOKEN'' \<mapsto> ''from-file'']" and k = "''TOKEN''" and v = "''from-file''"
        and tokens = "[''CI=1'']" and ?v0.0 = "''from-flag''", OF parsed entry key]
      parsed entry key
    by blast
qed

subsection \<open>Running the plan once\<close>

text \<open>
  C5: without watch mode, an empty storage path starts and stops no artifact service;
  with a storage path that is not empty the service is started once, before the plan
  executor runs, and its cancellation function is called once, after the executor has
  run, whether the executor failed or not. In both cases the executor runs once and its
  error is what the command returns.
\<close>

theorem C5_service_around_single_run:
  "newRunCommand_run [] (Inr False) outcome getwd running closed changes
     = (outcome 0, [ExecutorRun (outcome 0), CancelCalled])
   \<and> newRunCommand_run (c # cs) (Inr False) outcome getwd running closed changes
     = (outcome 0, [ServiceStart, ExecutorRun (outcome 0), CancelCalled, ServiceStop])"
  by (simp add: newRunCommand_run_def Serve_def Finally_def NewPlanExecutor_def passes_def)

subsection \<open>The watch loop\<close>

text \<open>
  An invariant of the state \<^verbatim>\<open>(err, trace)\<close> that every pass keeps holds at every exit of
  the two loops.
\<close>

lemma rangeChanges_invariant:
  assumes step: "\<And>err tr. I (err, tr) \<Longrightarrow> I (fn tr)"
    and start: "I (err, tr)"
    and result: "rangeChanges fn closed changes (err, tr) = (how, changes', err', tr')"
  shows "I (err', tr')"
  using start result
proof (induction changes arbitrary: err tr)
  case Nil
  then show ?case by auto
next
  case (Cons c cs)
  obtain r t where pass: "fn tr = (r, t)"
    by (cases "fn tr")
  with step [OF Cons.prems(1)] have inv: "I (r, t)"
    by simp
  show ?case
  proof (cases "r = None")
    case True
    with Cons.prems(2) pass
    have "rangeChanges fn closed cs (r, t) = (how, changes', err', tr')"
      by simp
    with inv show ?thesis by (rule Cons.IH)
  next
    case False
    with Cons.prems(2) pass inv show ?thesis by auto
  qed
qed

lemma watchLoop_invariant:
  assumes step: "\<And>err tr. I (err, tr) \<Longrightarrow> I (fn tr)"
    and start: "I (err, tr)"
  shows "I (watchLoop fn running closed changes (err, tr))"
  using start
proof (induction running arbitrary: changes err tr)
  case Nil
  then show ?case by simp
next
  case (Cons isRunning later)
  show ?case
  proof (cases isRunning)
    case False
    with Cons.prems show ?thesis by simp
  next
    case True
    obtain r t where pass: "fn tr = (r, t)"
      by (cases "fn tr")
    with step [OF Cons.prems] have inv: "I (r, t)"
      by simp
    show ?thesis
    proof (cases "r = None")
      case False
      with True pass inv show ?thesis by auto
    next
      case none: True
      obtain how cs' e2 t2 where inner:
        "rangeChanges fn closed changes (r, t) = (how, cs', e2, t2)"
        by (cases "rangeChanges fn closed changes (r, t)")
      with step inv have inv2: "I (e2, t2)"
        by (rule rangeChanges_invariant)
      show ?thesis
      proof (cases "how = Blocked")
        case True
        with \<open>isRunning\<close> pass none inner inv2 show ?thesis by simp
      next
        case False
        with \<open>isRunning\<close> pass none inner
        have "watchLoop fn (isRunning # later) closed changes (err, tr)
            = watchLoop fn later closed cs' (e2, t2)"
          by (cases how) auto
        with Cons.IH [OF inv2] show ?thesis by simp
      qed
    qed
  qed
qed

lemma lastPass_run: "lastPass (tr @ [ExecutorRun r]) = r"
  by (simp add: lastPass_def)

text \<open>
  Every run of the watch loop in which the first pass succeeds, the pass for the first
  change batch fails and the watcher still answers that it is running has at least three
  passes.
\<close>

lemma passes_simps:
  "passes [] = 0"
  "passes (ExecutorRun r # tr) = Suc (passes tr)"
  "passes (tr @ tr') = passes tr + passes tr'"
  by (simp_all add: passes_def)

lemma watchLoop_passes_mono:
  "n \<le> passes tr \<Longrightarrow> n \<le> passes (snd (watchLoop (NewPlanExecutor outcome) running closed changes (err, tr)))"
  by (rule watchLoop_invariant [where I = "\<lambda>s. n \<le> passes (snd s)" and err = err and tr = tr, simplified])
    (simp_all add: NewPlanExecutor_def passes_simps)

lemma watchLoop_runs_again_after_batch_failure:
  assumes "outcome (passes tr) = None" and "outcome (Suc (passes tr)) = Some e"
  shows "passes tr + 3
    \<le> passes (snd (watchLoop (NewPlanExecutor outcome) (True # True # later) closed (c # cs) (err, tr)))"
proof -
  let ?t1 = "tr @ [ExecutorRun None]"
  let ?t2 = "?t1 @ [ExecutorRun (Some e)]"
  let ?t3 = "?t2 @ [ExecutorRun (outcome (Suc (Suc (passes tr))))]"
  have first: "NewPlanExecutor outcome tr = (None, ?t1)"
    using assms(1) by (simp add: NewPlanExecutor_def)
  have second: "NewPlanExecutor outcome ?t1 = (Some e, ?t2)"
    using assms(2) by (simp add: NewPlanExecutor_def passes_simps)
  have third: "NewPlanExecutor outcome ?t2 = (outcome (Suc (Suc (passes tr))), ?t3)"
    by (simp add: NewPlanExecutor_def passes_simps)
  have three: "passes ?t3 = passes tr + 3"
    by (simp add: passes_simps)
  show ?thesis
  proof (cases "outcome (Suc (Suc (passes tr)))")
    case (Some e3)
    then have "watchLoop (NewPlanExecutor outcome) (True # True # later) closed (c # cs) (err, tr)
        = (Some e3, ?t3)"
      using first second third by simp
    with three show ?thesis by simp
  next
    case None
    obtain how cs' e4 t4 where inner:
      "rangeChanges (NewPlanExecutor outcome) closed cs (None, ?t3) = (how, cs', e4, t4)"
      by (cases "rangeChanges (NewPlanExecutor outcome) closed cs (None, ?t3)")
    have "passes tr + 3 \<le> passes (snd (None :: error option, ?t3))"
      using three by simp
    then have t4: "passes tr + 3 \<le> passes (snd (e4, t4))"
      by (rule rangeChanges_invariant [where I = "\<lambda>s. passes tr + 3 \<le> passes (snd s)", rotated, OF _ inner])
        (simp add: NewPlanExecutor_def passes_simps)
    show ?thesis
    proof (cases "how = Blocked")
      case True
      then have "watchLoop (NewPlanExecutor outcome) (True # True # later) closed (c # cs) (err, tr)
          = (e4, t4)"
        using first second third None inner by simp
      with t4 show ?thesis by simp
    next
      case False
      then have "watchLoop (NewPlanExecutor outcome) (True # True # later) closed (c # cs) (err, tr)
          = watchLoop (NewPlanExecutor outcome) later closed cs' (e4, t4)"
        using first second third None inner by (cases how) simp_all
      with watchLoop_passes_mono [of "passes tr + 3" t4 outcome later closed cs' e4] t4
      show ?thesis by simp
    qed
  qed
qed

text \<open>
  C4 (when the first pass succeeds and the pass for the first change batch fails, the
  executor is run exactly twice, the loop ends at once and that failure is the result)
  fails on the code. Here the executor succeeds on its first run and fails on its second,
  which the change batch \<^verbatim>\<open>main.go\<close> triggered; the watcher is still running. The
  \<^verbatim>\<open>break\<close> leaves the \<^verbatim>\<open>range\<close> loop only, so the outer loop runs the executor a third time
  at once. When that run succeeds, \<^verbatim>\<open>err\<close> is \<^verbatim>\<open>nil\<close> again and the loop goes on to
  receive the next batch; when it fails, the loop ends after three runs, not two.
\<close>

theorem C4_failed_batch_pass_runs_again:
  "watchAndRun None (NewPlanExecutor (\<lambda>n. if n = 1 then Some ''exit status 1'' else None))
      [True, True] False [''main.go''] []
     = (None, [ExecutorRun None, ExecutorRun (Some ''exit status 1''), ExecutorRun None])
   \<and> watchAndRun None (NewPlanExecutor (\<lambda>n. if n = 1 then Some ''exit status 1'' else None))
      [True, True] False [''main.go'', ''go.mod''] []
     = (None, [ExecutorRun None, ExecutorRun (Some ''exit status 1''), ExecutorRun None,
          ExecutorRun None])
   \<and> watchAndRun None (NewPlanExecutor (\<lambda>n. if n = 0 then None else Some ''exit status 1''))
      [True, True] False [''main.go''] []
     = (Some ''exit status 1'', [ExecutorRun None, ExecutorRun (Some ''exit status 1''),
          ExecutorRun (Some ''exit status 1'')])"
  by (simp add: watchAndRun_def NewPlanExecutor_def passes_def)

text \<open>
  C6: in watch mode the value returned is the error of the most recent completed pass
  (\<^verbatim>\<open>nil\<close> when it succeeded, and \<^verbatim>\<open>nil\<close> when no pass has completed), for every
  sequence of pass results, every sequence of answers of the watcher and every sequence
  of change batches: nothing but a pass writes \<^verbatim>\<open>err\<close> once the working directory is
  known, so the cancellation and the stop of the watcher leave it as the last pass set it.
\<close>

theorem C6_watch_returns_last_pass_error:
  "fst (newRunCommand_run artifactServerPath (Inr True) outcome None running closed changes)
     = lastPass (snd (newRunCommand_run artifactServerPath (Inr True) outcome None running closed changes))
   \<and> fst (watchAndRun None (NewPlanExecutor outcome) running closed changes [])
     = lastPass (snd (watchAndRun None (NewPlanExecutor outcome) running closed changes []))"
proof -
  let ?I = "\<lambda>s. fst s = lastPass (snd s)"
  obtain cancel tr0 where serve: "Serve artifactServerPath [] = (cancel, tr0)"
    by (cases "Serve artifactServerPath []")
  then have none: "lastPass tr0 = None"
    by (auto simp: Serve_def lastPass_def split: if_splits)
  have step: "?I (NewPlanExecutor outcome tr)" for tr
    by (simp add: NewPlanExecutor_def lastPass_run)
  have loop: "?I (watchLoop (NewPlanExecutor outcome) running closed changes (None, tr))"
    if "lastPass tr = None" for tr
    by (rule watchLoop_invariant [where I = ?I]) (use step that in simp_all)
  from loop [OF none] loop [of "[]"] show ?thesis
    by (simp add: newRunCommand_run_def serve watchAndRun_def lastPass_def)
qed

text \<open>
  C10: in watch mode the cancellation function that \<^verbatim>\<open>artifacts.Serve\<close> returned is
  never called, and so the service is never stopped by this layer: the watch loop gets
  the plain plan executor, and \<^verbatim>\<open>newRunCommand\<close> returns what \<^verbatim>\<open>watchAndRun\<close> returns.
\<close>

theorem C10_watch_mode_never_cancels:
  "CancelCalled \<notin> set (snd (newRunCommand_run artifactServerPath (Inr True) outcome getwd running closed changes))
   \<and> ServiceStop \<notin> set (snd (newRunCommand_run artifactServerPath (Inr True) outcome getwd running closed changes))"
proof -
  let ?I = "\<lambda>s. CancelCalled \<notin> set (snd s) \<and> ServiceStop \<notin> set (snd s)"
  obtain cancel tr0 where serve: "Serve artifactServerPath [] = (cancel, tr0)"
    by (cases "Serve artifactServerPath []")
  then have start: "?I (None :: error option, tr0)"
    by (auto simp: Serve_def split: if_splits)
  have step: "?I (err, tr) \<Longrightarrow> ?I (NewPlanExecutor outcome tr)" for err :: "error option" and tr
    by (simp add: NewPlanExecutor_def)
  have "?I (watchLoop (NewPlanExecutor outcome) running closed changes (None, tr0))"
    by (rule watchLoop_invariant [where I = ?I, OF step start])
  with start show ?thesis
    by (cases getwd) (simp_all add: newRunCommand_run_def serve watchAndRun_def)
qed

end
